theory Spec2Isabelle
  imports Complex_Main
begin

section \<open>JavaScript values\<close>

text \<open>
  A JavaScript number is a double: a finite value, or one of NaN, Infinity, -Infinity.
  Finite doubles are rationals; +0 and -0 are one value here, as they are for
  \<^verbatim>\<open>===\<close> and for \<^verbatim>\<open>String\<close>.
\<close>

datatype jsnum = NaN | PosInfinity | NegInfinity | Finite rat

text \<open>\<^verbatim>\<open>type Value = string | number | boolean\<close>\<close>

datatype val = VStr string | VNum jsnum | VBool bool

text \<open>
  A value of type \<^verbatim>\<open>unknown\<close> or \<^verbatim>\<open>any\<close>: a scalar, undefined, null, or
  an object (\<open>Ref\<close>, compared by reference; a function stands among them, as its type
  is no scalar type either).
\<close>

datatype jsval = Prim val | Undefined | Null | Ref nat

datatype jstype = TString | TNumber | TBoolean | TUndefined | TObject

fun typeof :: "jsval \<Rightarrow> jstype" where
  "typeof (Prim (VStr s)) = TString"
| "typeof (Prim (VNum n)) = TNumber"
| "typeof (Prim (VBool b)) = TBoolean"
| "typeof Undefined = TUndefined"
| "typeof Null = TObject"
| "typeof (Ref r) = TObject"

text \<open>\<^verbatim>\<open>a === b\<close>: same type and same value; NaN equals nothing, itself included.\<close>

fun strict_eq :: "jsval \<Rightarrow> jsval \<Rightarrow> bool" where
  "strict_eq (Prim (VNum a)) (Prim (VNum b)) = (a \<noteq> NaN \<and> b \<noteq> NaN \<and> a = b)"
| "strict_eq a b = (a = b)"

text \<open>\<^verbatim>\<open>!v\<close> is \<open>\<not> truthy v\<close>: undefined, null, false, 0, NaN and '' are falsy.\<close>

fun truthy :: "jsval \<Rightarrow> bool" where
  "truthy Undefined = False"
| "truthy Null = False"
| "truthy (Prim (VBool b)) = b"
| "truthy (Prim (VStr s)) = (s \<noteq> [])"
| "truthy (Prim (VNum n)) = (n \<noteq> NaN \<and> n \<noteq> Finite 0)"
| "truthy (Ref r) = True"

text \<open>
  A row is an object with named columns; reading a column the object does not have
  gives undefined.
\<close>

type_synonym row = "(string \<times> jsval) list"

definition get_column :: "row \<Rightarrow> string \<Rightarrow> jsval" where
  "get_column r k = (case map_of r k of None \<Rightarrow> Undefined | Some v \<Rightarrow> v)"

section \<open>The expression language\<close>

datatype expr = Eq string val | And "expr list" | Or "expr list"

definition eq :: "string \<Rightarrow> val \<Rightarrow> expr" where
  "eq key v = Eq key v"

text \<open>An expression is an object, and every object is truthy.\<close>

definition Boolean_expr :: "expr \<Rightarrow> bool" where
  "Boolean_expr c = True"

text \<open>
  The operands of \<^verbatim>\<open>and(...children)\<close>: the loop skips a falsy operand
  (\<^verbatim>\<open>if (!c) continue\<close>), so an operand is an expression or a falsy value, \<open>None\<close>.
  \<open>and_flat\<close> is the loop, with \<open>flat\<close> as its accumulator.
\<close>

fun and_flat :: "expr option list \<Rightarrow> expr list \<Rightarrow> expr list" where
  "and_flat [] flat = flat"
| "and_flat (None # cs) flat = and_flat cs flat"
| "and_flat (Some (And ch) # cs) flat = and_flat cs (flat @ ch)"
| "and_flat (Some c # cs) flat = and_flat cs (flat @ [c])"

definition and_expr :: "expr option list \<Rightarrow> expr" where
  "and_expr children =
     (let flat = and_flat children [];
          pruned = filter Boolean_expr flat
      in if length pruned = 0 then And []
         else if length pruned = 1 then pruned ! 0
         else And pruned)"

fun or_flat :: "expr option list \<Rightarrow> expr list \<Rightarrow> expr list" where
  "or_flat [] flat = flat"
| "or_flat (None # cs) flat = or_flat cs flat"
| "or_flat (Some (Or ch) # cs) flat = or_flat cs (flat @ ch)"
| "or_flat (Some c # cs) flat = or_flat cs (flat @ [c])"

definition or_expr :: "expr option list \<Rightarrow> expr" where
  "or_expr children =
     (let flat = or_flat children [];
          pruned = filter Boolean_expr flat
      in if length pruned = 0 then Or []
         else if length pruned = 1 then pruned ! 0
         else Or pruned)"

definition where_expr :: "expr \<Rightarrow> expr" where
  "where_expr e = e"

fun evaluate :: "expr \<Rightarrow> row \<Rightarrow> bool" where
  "evaluate (Eq key v) r =
     (let x = get_column r key
      in if typeof x = TString \<or> typeof x = TNumber \<or> typeof x = TBoolean
         then strict_eq x (Prim v)
         else False)"
| "evaluate (And children) r =
     (length children = 0 \<or> list_all (\<lambda>c. evaluate c r) children)"
| "evaluate (Or children) r =
     (length children \<noteq> 0 \<and> list_ex (\<lambda>c. evaluate c r) children)"

section \<open>Rendering the query text\<close>

definition sq :: string where
  "sq = [CHR 0x27]"

definition dq :: string where
  "dq = [CHR 0x22]"

text \<open>\<^verbatim>\<open>s.replace(/c/g, "cc")\<close>: every occurrence of the character is doubled.\<close>

definition double_char :: "char \<Rightarrow> string \<Rightarrow> string" where
  "double_char q s = concat (map (\<lambda>c. if c = q then [q, q] else [c]) s)"

text \<open>
  \<^verbatim>\<open>String(v)\<close> of a number. For a finite number it is the language's own
  shortest-digits conversion, which is the parameter \<open>num_str\<close>.
\<close>

fun String_num :: "(rat \<Rightarrow> string) \<Rightarrow> jsnum \<Rightarrow> string" where
  "String_num num_str NaN = ''NaN''"
| "String_num num_str PosInfinity = ''Infinity''"
| "String_num num_str NegInfinity = ''-Infinity''"
| "String_num num_str (Finite q) = num_str q"

text \<open>\<^verbatim>\<open>Number.isFinite(v)\<close>\<close>

fun isFinite :: "jsnum \<Rightarrow> bool" where
  "isFinite (Finite q) = True"
| "isFinite n = False"

fun formatValue :: "(rat \<Rightarrow> string) \<Rightarrow> val \<Rightarrow> string" where
  "formatValue num_str (VStr s) = sq @ double_char (CHR 0x27) s @ sq"
| "formatValue num_str (VNum n) =
     (if isFinite n then String_num num_str n else sq @ String_num num_str n @ sq)"
| "formatValue num_str (VBool b) = (if b then ''TRUE'' else ''FALSE'')"

definition ident_start :: "char \<Rightarrow> bool" where
  "ident_start c =
     (c \<in> set ''ABCDEFGHIJKLMNOPQRSTUVWXYZ'' \<or> c \<in> set ''abcdefghijklmnopqrstuvwxyz'' \<or> c = CHR ''_'')"

definition ident_char :: "char \<Rightarrow> bool" where
  "ident_char c = (ident_start c \<or> c \<in> set ''0123456789'')"

text \<open>\<^verbatim>\<open>/^[A-Za-z_][A-Za-z0-9_]*$/.test(id)\<close>\<close>

fun plain_ident :: "string \<Rightarrow> bool" where
  "plain_ident [] = False"
| "plain_ident (c # cs) = (ident_start c \<and> list_all ident_char cs)"

definition escapeIdent :: "string \<Rightarrow> string" where
  "escapeIdent ident =
     (if plain_ident ident then ident else dq @ double_char (CHR 0x22) ident @ dq)"

text \<open>\<^verbatim>\<open>s.includes(t)\<close>: \<open>t\<close> occurs in \<open>s\<close> as a contiguous substring.\<close>

fun str_includes :: "string \<Rightarrow> string \<Rightarrow> bool" where
  "str_includes [] t = (t = [])"
| "str_includes (c # cs) t = (take (length t) (c # cs) = t \<or> str_includes cs t)"

definition parenthesize :: "string \<Rightarrow> string" where
  "parenthesize s =
     (if \<not> str_includes s '' AND '' \<and> \<not> str_includes s '' OR '' then s else ''('' @ s @ '')'')"

text \<open>\<^verbatim>\<open>xs.join(sep)\<close>\<close>

fun join :: "string \<Rightarrow> string list \<Rightarrow> string" where
  "join sep [] = []"
| "join sep [x] = x"
| "join sep (x # y # ys) = x @ sep @ join sep (y # ys)"

fun toString :: "(rat \<Rightarrow> string) \<Rightarrow> expr \<Rightarrow> string" where
  "toString num_str (Eq key v) = escapeIdent key @ '' = '' @ formatValue num_str v"
| "toString num_str (And children) =
     parenthesize (join '' AND '' (map (toString num_str) children))"
| "toString num_str (Or children) =
     parenthesize (join '' OR '' (map (toString num_str) children))"

section \<open>Membership classification\<close>

datatype MembershipChange = Enter | Leave | StayIn | StayOut

definition classifyMembership :: "expr option \<Rightarrow> row \<Rightarrow> row \<Rightarrow> MembershipChange" where
  "classifyMembership wh oldRow newRow =
     (case wh of
        None \<Rightarrow> StayIn
      | Some w \<Rightarrow>
          (let oldIn = evaluate w oldRow;
               newIn = evaluate w newRow
           in if oldIn \<and> \<not> newIn then Leave
              else if \<not> oldIn \<and> newIn then Enter
              else if oldIn \<and> newIn then StayIn
              else StayOut))"

section \<open>The view: state, collaborators, observable actions\<close>

datatype status = Disconnected | Connecting | Connected | Error

text \<open>The optional callbacks of the consumer: which of the four are given.\<close>

record callbacks =
  has_onInsert :: bool
  has_onDelete :: bool
  has_onUpdate :: bool
  has_onInitialSnapshot :: bool

text \<open>
  The cleanup closures kept in \<^verbatim>\<open>#tableUnSubscribers\<close>. The number names the listener
  closures of one run of \<^verbatim>\<open>#setupTableListeners\<close>.
\<close>

datatype unsubscriber =
    UnsubscribeStatus
  | RemoveOnInsert nat
  | RemoveOnDelete nat
  | RemoveOnUpdate nat

text \<open>
  What the view does to its collaborators and to its consumer, in the order it does it:
  calls on the status store, the subscription builder and its handle, the table cache,
  the consumer's callbacks, and the assignment to the reactive \<^verbatim>\<open>#rows\<close>.
\<close>

datatype effect =
    StatusSubscribe
  | StatusUnsubscribe
  | Subscribe nat string
  | CancelUnsubscribe nat
  | TableOnInsert nat
  | TableOnDelete nat
  | TableOnUpdate nat
  | TableRemoveOnInsert nat
  | TableRemoveOnDelete nat
  | TableRemoveOnUpdate nat
  | CallOnInsert row
  | CallOnDelete row
  | CallOnUpdate row row
  | CallOnInitialSnapshot "row list"
  | SetRows "row list"

text \<open>
  The private fields of a \<^verbatim>\<open>TableQuery\<close>, the closure variable
  \<^verbatim>\<open>unsubscribeStatus\<close> (\<open>False\<close> while it is still undefined), the flag inside
  \<^verbatim>\<open>once(...)\<close>, and the state of the collaborators as far as the view reads or
  changes it: the client's \<^verbatim>\<open>isActive\<close>, the table cache's rows and listeners, the
  status store's value and whether this view's handler is among its subscribers, and
  the subscriptions whose applied-callback is still registered.
\<close>

record tq =
  rows :: "row list"
  subscribeApplied :: bool
  tableName :: string
  whereClause :: "expr option"
  callbacks :: callbacks
  query :: string
  initialSnapshotCalled :: bool
  latestTransactionEvent :: jsval
  unsubscribe :: "nat option"
  tableUnSubscribers :: "unsubscriber list"
  unsubscribeStatus :: bool
  isActive :: bool
  cache_rows :: "row list"
  cache_has_onUpdate :: bool
  insert_listeners :: "nat list"
  delete_listeners :: "nat list"
  update_listeners :: "nat list"
  status_value :: status
  status_listening :: bool
  applied_callbacks :: "nat list"
  next_id :: nat
  trace :: "effect list"

definition emit :: "effect \<Rightarrow> tq \<Rightarrow> tq" where
  "emit e s = s\<lparr>trace := trace s @ [e]\<rparr>"

text \<open>\<^verbatim>\<open>get state()\<close>\<close>

datatype view_state = Loading | Ready

definition state :: "tq \<Rightarrow> view_state" where
  "state s = (if subscribeApplied s then Ready else Loading)"

section \<open>The view: operations\<close>

definition computeSnapshot :: "tq \<Rightarrow> row list" where
  "computeSnapshot s =
     (case whereClause s of
        Some w \<Rightarrow> filter (\<lambda>r. evaluate w r) (cache_rows s)
      | None \<Rightarrow> cache_rows s)"

text \<open>
  \<^verbatim>\<open>#initialSnapshotHandler\<close>: \<^verbatim>\<open>once(callbacks.onInitialSnapshot)\<close> when the
  callback is given, which calls it on the first call only, and a function that does
  nothing otherwise.
\<close>

definition initialSnapshotHandler :: "row list \<Rightarrow> tq \<Rightarrow> tq" where
  "initialSnapshotHandler rs s =
     (if has_onInitialSnapshot (callbacks s)
      then (if initialSnapshotCalled s then s
            else emit (CallOnInitialSnapshot rs) (s\<lparr>initialSnapshotCalled := True\<rparr>))
      else s)"

definition updateSnapshot :: "tq \<Rightarrow> tq" where
  "updateSnapshot s =
     (let rs = computeSnapshot s;
          s1 = emit (SetRows rs) (s\<lparr>rows := rs\<rparr>)
      in initialSnapshotHandler (rows s1) s1)"

text \<open>
  The tail shared by the three row listeners:
  \<^verbatim>\<open>if (ctx.event !== this.#latestTransactionEvent || !this.#latestTransactionEvent)\<close>
\<close>

definition update_once_per_transaction :: "jsval \<Rightarrow> tq \<Rightarrow> tq" where
  "update_once_per_transaction ctx_event s =
     (if \<not> strict_eq ctx_event (latestTransactionEvent s) \<or> \<not> truthy (latestTransactionEvent s)
      then updateSnapshot (s\<lparr>latestTransactionEvent := ctx_event\<rparr>)
      else s)"

text \<open>\<^verbatim>\<open>this.#whereClause && !evaluate(this.#whereClause, row)\<close>\<close>

definition filtered_out :: "expr option \<Rightarrow> row \<Rightarrow> bool" where
  "filtered_out wh r = (case wh of None \<Rightarrow> False | Some w \<Rightarrow> \<not> evaluate w r)"

definition onInsert :: "jsval \<Rightarrow> row \<Rightarrow> tq \<Rightarrow> tq" where
  "onInsert ctx_event r s =
     (if filtered_out (whereClause s) r then s
      else update_once_per_transaction ctx_event
             (if has_onInsert (callbacks s) then emit (CallOnInsert r) s else s))"

definition onDelete :: "jsval \<Rightarrow> row \<Rightarrow> tq \<Rightarrow> tq" where
  "onDelete ctx_event r s =
     (if filtered_out (whereClause s) r then s
      else update_once_per_transaction ctx_event
             (if has_onDelete (callbacks s) then emit (CallOnDelete r) s else s))"

definition onUpdate :: "jsval \<Rightarrow> row \<Rightarrow> row \<Rightarrow> tq \<Rightarrow> tq" where
  "onUpdate ctx_event oldRow newRow s =
     (case classifyMembership (whereClause s) oldRow newRow of
        Leave \<Rightarrow> update_once_per_transaction ctx_event
                  (if has_onDelete (callbacks s) then emit (CallOnDelete oldRow) s else s)
      | Enter \<Rightarrow> update_once_per_transaction ctx_event
                  (if has_onInsert (callbacks s) then emit (CallOnInsert newRow) s else s)
      | StayIn \<Rightarrow> update_once_per_transaction ctx_event
                  (if has_onUpdate (callbacks s) then emit (CallOnUpdate oldRow newRow) s else s)
      | StayOut \<Rightarrow> s)"

text \<open>The callback given to \<^verbatim>\<open>onApplied\<close>.\<close>

definition onApplied :: "tq \<Rightarrow> tq" where
  "onApplied s = updateSnapshot (s\<lparr>subscribeApplied := True\<rparr>)"

definition setupTableListeners :: "tq \<Rightarrow> tq" where
  "setupTableListeners s =
     (let l = next_id s;
          s1 = emit (TableOnInsert l) (s\<lparr>insert_listeners := insert_listeners s @ [l], next_id := l + 1\<rparr>);
          s2 = emit (TableOnDelete l) (s1\<lparr>delete_listeners := delete_listeners s1 @ [l]\<rparr>);
          s3 = (if cache_has_onUpdate s2
                then emit (TableOnUpdate l) (s2\<lparr>update_listeners := update_listeners s2 @ [l]\<rparr>)
                else s2)
      in s3\<lparr>tableUnSubscribers :=
              tableUnSubscribers s3 @ [RemoveOnInsert l, RemoveOnDelete l, RemoveOnUpdate l]\<rparr>)"

definition setupSubscription :: "tq \<Rightarrow> tq" where
  "setupSubscription s =
     (if \<not> isActive s then s
      else
        (let h = next_id s;
             s1 = emit (Subscribe h (query s))
                    (s\<lparr>applied_callbacks := applied_callbacks s @ [h], next_id := h + 1\<rparr>);
             s2 = s1\<lparr>unsubscribe := Some h\<rparr>
         in setupTableListeners s2))"

text \<open>The unsubscriber the status store returned; calling it again changes nothing.\<close>

definition call_unsubscribeStatus :: "tq \<Rightarrow> tq" where
  "call_unsubscribeStatus s = emit StatusUnsubscribe (s\<lparr>status_listening := False\<rparr>)"

definition handleStatusChange :: "status \<Rightarrow> tq \<Rightarrow> tq" where
  "handleStatusChange st s =
     (if st \<noteq> Connected then s
      else
        (let s1 = setupSubscription s;
             s2 = (if unsubscribeStatus s1
                   then (call_unsubscribeStatus s1)
                          \<lparr>tableUnSubscribers :=
                             filter (\<lambda>fn. fn \<noteq> UnsubscribeStatus) (tableUnSubscribers s1)\<rparr>
                   else s1)
         in if unsubscribeStatus s2 then call_unsubscribeStatus s2 else s2))"

text \<open>
  The constructor. \<open>wh\<close> is what the consumer's where-clause callback returned (\<open>None\<close>
  without one). The last four arguments are the collaborators when the view is built:
  the client's \<^verbatim>\<open>isActive\<close>, the rows of the table cache, whether the table has
  \<^verbatim>\<open>onUpdate\<close>, and the value of the status store. The store's \<^verbatim>\<open>subscribe\<close> runs
  the handler with the current value before it returns the unsubscriber, so the
  handler's first run sees \<^verbatim>\<open>unsubscribeStatus\<close> undefined.
\<close>

definition new_TableQuery ::
  "(rat \<Rightarrow> string) \<Rightarrow> string \<Rightarrow> expr option \<Rightarrow> callbacks \<Rightarrow> bool \<Rightarrow> row list \<Rightarrow> bool \<Rightarrow> status \<Rightarrow> tq" where
  "new_TableQuery num_str name wh cbs active cache has_upd st =
     (let s0 = \<lparr> rows = [], subscribeApplied = False, tableName = name, whereClause = wh,
                 callbacks = cbs,
                 query = ''SELECT * FROM '' @ name @
                   (case wh of Some w \<Rightarrow> '' WHERE '' @ toString num_str w | None \<Rightarrow> []),
                 initialSnapshotCalled = False, latestTransactionEvent = Null,
                 unsubscribe = None, tableUnSubscribers = [], unsubscribeStatus = False,
                 isActive = active, cache_rows = cache, cache_has_onUpdate = has_upd,
                 insert_listeners = [], delete_listeners = [], update_listeners = [],
                 status_value = st, status_listening = False, applied_callbacks = [],
                 next_id = 0, trace = [] \<rparr>;
          s1 = handleStatusChange st (emit StatusSubscribe (s0\<lparr>status_listening := True\<rparr>));
          s2 = s1\<lparr>unsubscribeStatus := True\<rparr>
      in s2\<lparr>tableUnSubscribers := tableUnSubscribers s2 @ [UnsubscribeStatus]\<rparr>)"

fun run_unsubscriber :: "unsubscriber \<Rightarrow> tq \<Rightarrow> tq" where
  "run_unsubscriber UnsubscribeStatus s = call_unsubscribeStatus s"
| "run_unsubscriber (RemoveOnInsert l) s =
     emit (TableRemoveOnInsert l) (s\<lparr>insert_listeners := removeAll l (insert_listeners s)\<rparr>)"
| "run_unsubscriber (RemoveOnDelete l) s =
     emit (TableRemoveOnDelete l) (s\<lparr>delete_listeners := removeAll l (delete_listeners s)\<rparr>)"
| "run_unsubscriber (RemoveOnUpdate l) s =
     (if cache_has_onUpdate s
      then emit (TableRemoveOnUpdate l) (s\<lparr>update_listeners := removeAll l (update_listeners s)\<rparr>)
      else s)"

definition destroy :: "tq \<Rightarrow> tq" where
  "destroy s =
     (let s1 = (case unsubscribe s of
                  Some h \<Rightarrow> emit (CancelUnsubscribe h)
                              (s\<lparr>applied_callbacks := removeAll h (applied_callbacks s)\<rparr>)
                | None \<Rightarrow> s);
          s2 = fold run_unsubscriber (tableUnSubscribers s1) s1
      in s2\<lparr>tableUnSubscribers := []\<rparr>)"

section \<open>What the collaborators and the consumer can do\<close>

datatype event =
    StatusSet status
  | ClientActive bool
  | CacheRows "row list"
  | SubscriptionApplied nat
  | RowInsert jsval row
  | RowDelete jsval row
  | RowUpdate jsval row row
  | Destroy

text \<open>
  One step of the world around the view. The status store tells its subscribers of a
  \<^verbatim>\<open>set\<close> only when the value changes; the subscription fires the applied-callback
  of a live handle; the table cache calls every listener registered for the kind of
  row event, with the event's context and rows.
\<close>

fun deliver :: "event \<Rightarrow> tq \<Rightarrow> tq" where
  "deliver (StatusSet v) s =
     (if v = status_value s then s
      else if status_listening s then handleStatusChange v (s\<lparr>status_value := v\<rparr>)
      else s\<lparr>status_value := v\<rparr>)"
| "deliver (ClientActive b) s = s\<lparr>isActive := b\<rparr>"
| "deliver (CacheRows rs) s = s\<lparr>cache_rows := rs\<rparr>"
| "deliver (SubscriptionApplied h) s = (if h \<in> set (applied_callbacks s) then onApplied s else s)"
| "deliver (RowInsert ctx_event r) s = fold (\<lambda>l. onInsert ctx_event r) (insert_listeners s) s"
| "deliver (RowDelete ctx_event r) s = fold (\<lambda>l. onDelete ctx_event r) (delete_listeners s) s"
| "deliver (RowUpdate ctx_event old new) s =
     fold (\<lambda>l. onUpdate ctx_event old new) (update_listeners s) s"
| "deliver Destroy s = destroy s"

definition run :: "event list \<Rightarrow> tq \<Rightarrow> tq" where
  "run evs s = fold deliver evs s"

text \<open>Counting in the trace.\<close>

fun is_SetRows :: "effect \<Rightarrow> bool" where
  "is_SetRows (SetRows rs) = True"
| "is_SetRows e = False"

fun is_Subscribe :: "effect \<Rightarrow> bool" where
  "is_Subscribe (Subscribe h q) = True"
| "is_Subscribe e = False"

fun is_CallOnInitialSnapshot :: "effect \<Rightarrow> bool" where
  "is_CallOnInitialSnapshot (CallOnInitialSnapshot rs) = True"
| "is_CallOnInitialSnapshot e = False"

definition recomputes :: "tq \<Rightarrow> nat" where
  "recomputes s = length (filter is_SetRows (trace s))"

definition subscribes :: "tq \<Rightarrow> nat" where
  "subscribes s = length (filter is_Subscribe (trace s))"

definition initial_snapshots :: "tq \<Rightarrow> effect list" where
  "initial_snapshots s = filter is_CallOnInitialSnapshot (trace s)"

text \<open>
  One raw row event handled by one listener of the view, and whether it gets past the
  filter at the head of its listener (the insert or delete row passes the predicate,
  the update is not classified \<open>StayOut\<close>).
\<close>

datatype raw_event = Insert jsval row | Delete jsval row | Update jsval row row

fun handle_raw :: "raw_event \<Rightarrow> tq \<Rightarrow> tq" where
  "handle_raw (Insert ctx_event r) s = onInsert ctx_event r s"
| "handle_raw (Delete ctx_event r) s = onDelete ctx_event r s"
| "handle_raw (Update ctx_event old new) s = onUpdate ctx_event old new s"

fun ctx_event_of :: "raw_event \<Rightarrow> jsval" where
  "ctx_event_of (Insert ctx_event r) = ctx_event"
| "ctx_event_of (Delete ctx_event r) = ctx_event"
| "ctx_event_of (Update ctx_event old new) = ctx_event"

fun dispatched :: "expr option \<Rightarrow> raw_event \<Rightarrow> bool" where
  "dispatched wh (Insert ctx_event r) = (\<not> filtered_out wh r)"
| "dispatched wh (Delete ctx_event r) = (\<not> filtered_out wh r)"
| "dispatched wh (Update ctx_event old new) = (classifyMembership wh old new \<noteq> StayOut)"

section \<open>The builders as the specification words them\<close>






text \<open>
  The predicate of the rendering scenario:
  \<^verbatim>\<open>and(eq('role','admin'), or(eq('dept','Eng'), eq('dept','Product')))\<close>
\<close>

definition example_predicate :: expr where
  "example_predicate =
     and_expr [Some (eq ''role'' (VStr ''admin'')),
               Some (or_expr [Some (eq ''dept'' (VStr ''Eng'')),
                              Some (eq ''dept'' (VStr ''Product''))])]"

text \<open>States and rows for concrete runs.\<close>

definition all_callbacks :: callbacks where
  "all_callbacks =
     \<lparr>has_onInsert = True, has_onDelete = True, has_onUpdate = True,
      has_onInitialSnapshot = True\<rparr>"

definition active_user :: "nat \<Rightarrow> row" where
  "active_user n =
     [(''id'', Prim (VNum (Finite (of_nat n)))), (''isActive'', Prim (VBool True))]"

definition inactive_user :: "nat \<Rightarrow> row" where
  "inactive_user n =
     [(''id'', Prim (VNum (Finite (of_nat n)))), (''isActive'', Prim (VBool False))]"

text \<open>
  A view of table \<^verbatim>\<open>User\<close> with predicate \<^verbatim>\<open>eq('isActive', true)\<close> and all four
  callbacks, built under an active client, an empty cache and the given status.
\<close>

definition active_users_view :: "status \<Rightarrow> tq" where
  "active_users_view st =
     new_TableQuery (\<lambda>q. []) ''User'' (Some (where_expr (eq ''isActive'' (VBool True))))
       all_callbacks True [] True st"

section \<open>Invariants of the view\<close>

text \<open>
  A step that issues no subscribe call, leaves the closure variable as it is and does
  not register the status handler.
\<close>

definition no_new_subscription :: "tq \<Rightarrow> tq \<Rightarrow> bool" where
  "no_new_subscription s s' =
     (subscribes s' = subscribes s \<and> unsubscribeStatus s' = unsubscribeStatus s
      \<and> (status_listening s \<or> \<not> status_listening s'))"

text \<open>
  The status handler can deregister itself, and while it is registered no subscribe
  call has been issued; once it is gone, at most one has.
\<close>

definition subscribed_at_most_once :: "tq \<Rightarrow> bool" where
  "subscribed_at_most_once s =
     (unsubscribeStatus s \<and> (if status_listening s then subscribes s = 0 else subscribes s \<le> 1))"

text \<open>
  The consumer's initial-snapshot callback has been called as often as the flag of
  \<^verbatim>\<open>once\<close> says: once when the flag is set, never otherwise.
\<close>

definition snapshot_called_once :: "tq \<Rightarrow> bool" where
  "snapshot_called_once s =
     (length (initial_snapshots s) = (if initialSnapshotCalled s then 1 else 0))"

section \<open>Properties of the expression language\<close>

subsection \<open>Strict equality and truthiness\<close>

lemma strict_eq_Prim: "strict_eq (Prim a) (Prim b) = (a = b \<and> b \<noteq> VNum NaN)"
  by (cases a; cases b) auto

lemma typeof_scalar:
  "(typeof x = TString \<or> typeof x = TNumber \<or> typeof x = TBoolean) = (\<exists>v. x = Prim v)"
  by (cases x rule: typeof.cases) simp_all

lemma falsy_strict_eq: "\<not> truthy a \<Longrightarrow> strict_eq a b \<Longrightarrow> \<not> truthy b"
  by (induction a b rule: strict_eq.induct) auto

lemma strict_eq_eq: "strict_eq a b \<Longrightarrow> a = b"
  by (induction a b rule: strict_eq.induct) auto

lemma truthy_strict_eq_refl: "truthy a \<Longrightarrow> strict_eq a a"
  by (cases a rule: truthy.cases) auto

subsection \<open>Evaluation\<close>

lemma evaluate_Eq_get_column:
  "evaluate (Eq key lit) r = (\<exists>v. get_column r key = Prim v \<and> strict_eq (Prim v) (Prim lit))"
  by (auto simp: Let_def typeof_scalar)

text \<open>
  Claim C7. \<open>evaluate\<close> is a total function of the expression and the row: it has a
  boolean value for every tree and every row, and no branch of it raises. An equality
  leaf is true exactly when the row holds, at the leaf's key, a string, number or
  boolean that is \<^verbatim>\<open>===\<close> to the literal, that is the same scalar and not NaN; it is
  false when the column is absent and when its value is no such scalar. An AND node is
  true exactly when all its children are, an OR node when one of them is.
\<close>

theorem evaluate_total_leaf_strict:
  "(evaluate (Eq key lit) r =
      (\<exists>v. map_of r key = Some (Prim v) \<and> strict_eq (Prim v) (Prim lit)))
   \<and> (strict_eq (Prim v') (Prim lit) = (v' = lit \<and> lit \<noteq> VNum NaN))
   \<and> (map_of r key = None \<longrightarrow> \<not> evaluate (Eq key lit) r)
   \<and> ((\<forall>v. map_of r key \<noteq> Some (Prim v)) \<longrightarrow> \<not> evaluate (Eq key lit) r)
   \<and> (evaluate (And cs) r = (\<forall>c \<in> set cs. evaluate c r))
   \<and> (evaluate (Or cs) r = (\<exists>c \<in> set cs. evaluate c r))"
proof -
  have leaf: "evaluate (Eq key lit) r =
      (\<exists>v. map_of r key = Some (Prim v) \<and> strict_eq (Prim v) (Prim lit))"
    unfolding evaluate_Eq_get_column get_column_def
    by (cases "map_of r key") auto
  have absent: "map_of r key = None \<longrightarrow> \<not> evaluate (Eq key lit) r"
    using leaf by simp
  have other: "(\<forall>v. map_of r key \<noteq> Some (Prim v)) \<longrightarrow> \<not> evaluate (Eq key lit) r"
    using leaf by simp
  have conj: "evaluate (And cs) r = (\<forall>c \<in> set cs. evaluate c r)"
    by (cases cs) (simp_all add: list_all_iff)
  have disj: "evaluate (Or cs) r = (\<exists>c \<in> set cs. evaluate c r)"
    by (cases cs) (simp_all add: list_ex_iff)
  from leaf absent other conj disj show ?thesis
    by (simp only: strict_eq_Prim simp_thms)
qed

theorem evaluate_total_leaf_strict_witness:
  "evaluate (Eq ''isActive'' (VBool True)) (active_user 1)
   \<and> \<not> evaluate (Eq ''isActive'' (VBool True)) (inactive_user 1)
   \<and> \<not> evaluate (Eq ''name'' (VStr ''x'')) (active_user 1)
   \<and> \<not> evaluate (Eq ''isActive'' (VStr ''true'')) (active_user 1)
   \<and> \<not> evaluate (Eq ''n'' (VNum NaN)) [(''n'', Prim (VNum NaN))]
   \<and> \<not> evaluate (Eq ''n'' (VBool True)) [(''n'', Ref 3)]"
  using evaluate_total_leaf_strict [of "''isActive''" "VBool True" "active_user 1"]
    evaluate_total_leaf_strict [of "''isActive''" "VBool True" "inactive_user 1"]
    evaluate_total_leaf_strict [of "''name''" "VStr ''x''" "active_user 1"]
    evaluate_total_leaf_strict [of "''isActive''" "VStr ''true''" "active_user 1"]
    evaluate_total_leaf_strict [of "''n''" "VNum NaN" "[(''n'', Prim (VNum NaN))]"]
    evaluate_total_leaf_strict [of "''n''" "VBool True" "[(''n'', Ref 3)]"]
  by (simp add: active_user_def inactive_user_def)

text \<open>
  Claim C8. For every row, the AND of no operand, as the builder returns it, evaluates
  to true, and the OR of no operand evaluates to false.
\<close>

theorem evaluate_empty_and_or:
  "evaluate (and_expr []) r = True \<and> evaluate (or_expr []) r = False"
  by (simp add: and_expr_def or_expr_def)

theorem evaluate_empty_and_or_witness:
  "evaluate (and_expr []) (active_user 1) = True \<and> evaluate (or_expr []) (active_user 1) = False"
  using evaluate_empty_and_or [of "active_user 1"] by simp

subsection \<open>The builders\<close>




















subsection \<open>Rendering\<close>

lemma str_includes_prefix: "str_includes (t @ b) t"
proof (cases "t @ b")
  case Nil
  then show ?thesis by simp
next
  case (Cons c cs)
  have "take (length t) (t @ b) = t" by simp
  then have "take (length t) (c # cs) = t" by (simp only: Cons)
  then have "str_includes (c # cs) t" by simp
  then show ?thesis by (simp add: Cons)
qed

lemma str_includes_mid: "str_includes (a @ t @ b) t"
  by (induction a) (simp_all add: str_includes_prefix)

lemma parenthesize_joined_and:
  "parenthesize (join '' AND '' (x # y # ys)) = ''('' @ join '' AND '' (x # y # ys) @ '')''"
  unfolding parenthesize_def join.simps using str_includes_mid[of x "'' AND ''"] by simp

lemma parenthesize_joined_or:
  "parenthesize (join '' OR '' (x # y # ys)) = ''('' @ join '' OR '' (x # y # ys) @ '')''"
  unfolding parenthesize_def join.simps using str_includes_mid[of x "'' OR ''"] by simp

lemma escapeIdent_no_paren: "escapeIdent k \<noteq> ''('' @ s"
proof (cases "plain_ident k")
  case True
  then obtain c cs where k: "k = c # cs" and c: "ident_start c"
    by (cases k) auto
  from c have "c \<noteq> CHR ''(''" by (auto simp: ident_start_def)
  with True k show ?thesis by (simp add: escapeIdent_def)
next
  case False
  then show ?thesis by (simp add: escapeIdent_def dq_def)
qed

lemma leaf_no_paren: "toString ns (Eq k v) \<noteq> ''('' @ s"
proof
  assume "toString ns (Eq k v) = ''('' @ s"
  then have e: "escapeIdent k @ '' = '' @ formatValue ns v = CHR ''('' # s" by simp
  show False
  proof (cases "escapeIdent k")
    case Nil
    then show ?thesis by (cases "plain_ident k") (simp_all add: escapeIdent_def dq_def)
  next
    case (Cons c cs)
    with e have "c = CHR ''(''" by simp
    with Cons escapeIdent_no_paren[of k cs] show ?thesis by simp
  qed
qed

text \<open>
  Claim C3, as stated, fails: the root node parenthesizes its own joined text as every
  node does, so the rendered predicate of the scenario is wrapped in parentheses.
\<close>

theorem toString_example_counterexample:
  "\<forall>ns. toString ns example_predicate \<noteq>
      ''role = '' @ sq @ ''admin'' @ sq @ '' AND (dept = '' @ sq @ ''Eng'' @ sq @
      '' OR dept = '' @ sq @ ''Product'' @ sq @ '')''"
proof (intro allI)
  fix ns
  show "toString ns example_predicate \<noteq>
      ''role = '' @ sq @ ''admin'' @ sq @ '' AND (dept = '' @ sq @ ''Eng'' @ sq @
      '' OR dept = '' @ sq @ ''Product'' @ sq @ '')''"
    by code_simp
qed

text \<open>
  Claim C3, amended. The predicate of the scenario renders as
  \<^verbatim>\<open>(role = 'admin' AND (dept = 'Eng' OR dept = 'Product'))\<close>, the whole text in
  parentheses. In general an AND or OR node wraps its own joined text in parentheses
  exactly when that text has \<^verbatim>\<open>' AND '\<close> or \<^verbatim>\<open>' OR '\<close> as a substring: every node
  of two or more children is wrapped, the root included, and a node without children
  renders as the empty text. An equality leaf renders as its identifier, \<^verbatim>\<open> = \<close> and
  its literal, and that text never starts with a parenthesis.
\<close>

theorem toString_parenthesizes_own_text:
  "toString ns example_predicate =
      ''(role = '' @ sq @ ''admin'' @ sq @ '' AND (dept = '' @ sq @ ''Eng'' @ sq @
      '' OR dept = '' @ sq @ ''Product'' @ sq @ ''))''
   \<and> toString ns (And (x # y # ys)) =
       ''('' @ join '' AND '' (map (toString ns) (x # y # ys)) @ '')''
   \<and> toString ns (Or (x # y # ys)) =
       ''('' @ join '' OR '' (map (toString ns) (x # y # ys)) @ '')''
   \<and> toString ns (And []) = [] \<and> toString ns (Or []) = []
   \<and> toString ns (And cs) =
       (let s = join '' AND '' (map (toString ns) cs)
        in if str_includes s '' AND '' \<or> str_includes s '' OR '' then ''('' @ s @ '')'' else s)
   \<and> toString ns (Or cs) =
       (let s = join '' OR '' (map (toString ns) cs)
        in if str_includes s '' AND '' \<or> str_includes s '' OR '' then ''('' @ s @ '')'' else s)
   \<and> toString ns (Eq k v) = escapeIdent k @ '' = '' @ formatValue ns v
   \<and> (\<forall>s. toString ns (Eq k v) \<noteq> ''('' @ s)"
proof -
  have ex: "toString ns example_predicate =
      ''(role = '' @ sq @ ''admin'' @ sq @ '' AND (dept = '' @ sq @ ''Eng'' @ sq @
      '' OR dept = '' @ sq @ ''Product'' @ sq @ ''))''"
    by code_simp
  have many_and: "toString ns (And (x # y # ys)) =
       ''('' @ join '' AND '' (map (toString ns) (x # y # ys)) @ '')''"
    using parenthesize_joined_and by simp
  have many_or: "toString ns (Or (x # y # ys)) =
       ''('' @ join '' OR '' (map (toString ns) (x # y # ys)) @ '')''"
    using parenthesize_joined_or by simp
  have none: "toString ns (And []) = []" "toString ns (Or []) = []"
    by (simp_all add: parenthesize_def)
  have rule_and: "toString ns (And cs) =
       (let s = join '' AND '' (map (toString ns) cs)
        in if str_includes s '' AND '' \<or> str_includes s '' OR '' then ''('' @ s @ '')'' else s)"
    by (simp add: parenthesize_def Let_def)
  have rule_or: "toString ns (Or cs) =
       (let s = join '' OR '' (map (toString ns) cs)
        in if str_includes s '' AND '' \<or> str_includes s '' OR '' then ''('' @ s @ '')'' else s)"
    by (simp add: parenthesize_def Let_def)
  have leaf: "toString ns (Eq k v) = escapeIdent k @ '' = '' @ formatValue ns v"
    by simp
  have bare: "\<forall>s. toString ns (Eq k v) \<noteq> ''('' @ s"
    using leaf_no_paren by blast
  from ex many_and many_or none rule_and rule_or leaf bare show ?thesis by blast
qed

theorem toString_parenthesizes_own_text_witness:
  "toString (\<lambda>q. []) (And [Eq ''a'' (VBool True), Eq ''b'' (VBool False)]) = ''(a = TRUE AND b = FALSE)''
   \<and> toString (\<lambda>q. []) (Or [Eq ''a'' (VBool True), Eq ''b'' (VBool False)]) = ''(a = TRUE OR b = FALSE)''
   \<and> toString (\<lambda>q. []) (And [Eq ''a'' (VStr ''x AND y'')]) = ''(a = '' @ sq @ ''x AND y'' @ sq @ '')''
   \<and> toString (\<lambda>q. []) (Eq ''a'' (VBool True)) = ''a = TRUE''
   \<and> toString (\<lambda>q. []) (Eq ''a'' (VBool True)) \<noteq> ''(a = TRUE)''"
proof -
  have leaves: "toString (\<lambda>q. []) (Eq ''a'' (VBool True)) = ''a = TRUE''"
    "toString (\<lambda>q. []) (Eq ''b'' (VBool False)) = ''b = FALSE''"
    "toString (\<lambda>q. []) (And [Eq ''a'' (VStr ''x AND y'')]) = ''(a = '' @ sq @ ''x AND y'' @ sq @ '')''"
    by code_simp+
  from leaves
    toString_parenthesizes_own_text
      [of "\<lambda>q. []" "Eq ''a'' (VBool True)" "Eq ''b'' (VBool False)" "[]" "[]" "''a''"
          "VBool True"]
  show ?thesis by simp
qed

subsection \<open>Membership classification\<close>

text \<open>
  Claim C1. \<open>classifyMembership\<close> returns one label of the four for every optional
  predicate and pair of rows. Without a predicate the label is \<open>StayIn\<close>. With a
  predicate it is \<open>Leave\<close> exactly when the predicate holds of the old row and not of
  the new one, \<open>Enter\<close> exactly when it holds of the new row and not of the old one,
  \<open>StayIn\<close> exactly when it holds of both, and \<open>StayOut\<close> exactly when it holds of
  neither.
\<close>

theorem classifyMembership_labels:
  "classifyMembership wh oldRow newRow \<in> {Enter, Leave, StayIn, StayOut}
   \<and> classifyMembership None oldRow newRow = StayIn
   \<and> (classifyMembership (Some w) oldRow newRow = Leave) =
       (evaluate w oldRow \<and> \<not> evaluate w newRow)
   \<and> (classifyMembership (Some w) oldRow newRow = Enter) =
       (\<not> evaluate w oldRow \<and> evaluate w newRow)
   \<and> (classifyMembership (Some w) oldRow newRow = StayIn) =
       (evaluate w oldRow \<and> evaluate w newRow)
   \<and> (classifyMembership (Some w) oldRow newRow = StayOut) =
       (\<not> evaluate w oldRow \<and> \<not> evaluate w newRow)"
proof -
  have "classifyMembership wh oldRow newRow \<in> {Enter, Leave, StayIn, StayOut}"
    by (cases "classifyMembership wh oldRow newRow") simp_all
  moreover have "classifyMembership None oldRow newRow = StayIn"
    by (simp add: classifyMembership_def)
  moreover have "(classifyMembership (Some w) oldRow newRow = Leave) =
       (evaluate w oldRow \<and> \<not> evaluate w newRow)"
    by (simp add: classifyMembership_def Let_def)
  moreover have "(classifyMembership (Some w) oldRow newRow = Enter) =
       (\<not> evaluate w oldRow \<and> evaluate w newRow)"
    by (simp add: classifyMembership_def Let_def)
  moreover have "(classifyMembership (Some w) oldRow newRow = StayIn) =
       (evaluate w oldRow \<and> evaluate w newRow)"
    by (simp add: classifyMembership_def Let_def)
  moreover have "(classifyMembership (Some w) oldRow newRow = StayOut) =
       (\<not> evaluate w oldRow \<and> \<not> evaluate w newRow)"
    by (auto simp: classifyMembership_def Let_def)
  ultimately show ?thesis by blast
qed

theorem classifyMembership_labels_witness:
  "classifyMembership (Some (Eq ''isActive'' (VBool True))) (active_user 1) (inactive_user 1) = Leave
   \<and> classifyMembership (Some (Eq ''isActive'' (VBool True))) (inactive_user 1) (active_user 1) = Enter
   \<and> classifyMembership None (inactive_user 1) (inactive_user 1) = StayIn"
proof -
  have yes: "evaluate (Eq ''isActive'' (VBool True)) (active_user 1)"
    by code_simp
  have no: "\<not> evaluate (Eq ''isActive'' (VBool True)) (inactive_user 1)"
    by code_simp
  from yes no
    classifyMembership_labels
      [of "Some (Eq ''isActive'' (VBool True))" "active_user 1" "inactive_user 1"
          "Eq ''isActive'' (VBool True)"]
    classifyMembership_labels
      [of None "inactive_user 1" "active_user 1" "Eq ''isActive'' (VBool True)"]
    classifyMembership_labels [of None "inactive_user 1" "inactive_user 1"]
  show ?thesis by blast
qed

section \<open>Properties of the view\<close>

subsection \<open>Recomputation and the transaction identity\<close>

lemma recomputes_emit: "recomputes (emit e s) = recomputes s + (if is_SetRows e then 1 else 0)"
  by (simp add: recomputes_def emit_def)

lemma recomputes_initialSnapshotHandler: "recomputes (initialSnapshotHandler rs s) = recomputes s"
  by (simp add: initialSnapshotHandler_def recomputes_def emit_def)

lemma recomputes_updateSnapshot: "recomputes (updateSnapshot s) = recomputes s + 1"
  by (simp add: updateSnapshot_def Let_def recomputes_initialSnapshotHandler recomputes_emit)
     (simp add: recomputes_def)

lemma updateSnapshot_keeps:
  "latestTransactionEvent (updateSnapshot s) = latestTransactionEvent s"
  "whereClause (updateSnapshot s) = whereClause s"
  by (simp_all add: updateSnapshot_def Let_def initialSnapshotHandler_def emit_def)

lemma update_recomputes:
  "\<not> strict_eq t (latestTransactionEvent s) \<or> \<not> truthy (latestTransactionEvent s) \<Longrightarrow>
   recomputes (update_once_per_transaction t s) = recomputes s + 1
   \<and> latestTransactionEvent (update_once_per_transaction t s) = t
   \<and> whereClause (update_once_per_transaction t s) = whereClause s"
  by (simp add: update_once_per_transaction_def recomputes_updateSnapshot updateSnapshot_keeps)
     (simp add: recomputes_def)

lemma update_skipped:
  "strict_eq t (latestTransactionEvent s) \<Longrightarrow> truthy (latestTransactionEvent s) \<Longrightarrow>
   update_once_per_transaction t s = s"
  by (simp add: update_once_per_transaction_def)

lemma callback_keeps:
  "recomputes (if b then emit (CallOnInsert r) s else s) = recomputes s"
  "recomputes (if b then emit (CallOnDelete r) s else s) = recomputes s"
  "recomputes (if b then emit (CallOnUpdate r r') s else s) = recomputes s"
  "latestTransactionEvent (if b then emit e s else s) = latestTransactionEvent s"
  "whereClause (if b then emit e s else s) = whereClause s"
  by (simp_all add: recomputes_emit) (simp_all add: emit_def)

lemma handle_raw_recomputes:
  assumes "dispatched (whereClause s) e"
    and "\<not> strict_eq (ctx_event_of e) (latestTransactionEvent s) \<or> \<not> truthy (latestTransactionEvent s)"
  shows "recomputes (handle_raw e s) = recomputes s + 1
     \<and> latestTransactionEvent (handle_raw e s) = ctx_event_of e
     \<and> whereClause (handle_raw e s) = whereClause s"
proof (cases e)
  case (Insert t r)
  with assms show ?thesis
    using update_recomputes[of t "if has_onInsert (callbacks s) then emit (CallOnInsert r) s else s"]
    by (simp add: onInsert_def callback_keeps)
next
  case (Delete t r)
  with assms show ?thesis
    using update_recomputes[of t "if has_onDelete (callbacks s) then emit (CallOnDelete r) s else s"]
    by (simp add: onDelete_def callback_keeps)
next
  case (Update t old new)
  with assms show ?thesis
    using update_recomputes[of t "if has_onDelete (callbacks s) then emit (CallOnDelete old) s else s"]
      update_recomputes[of t "if has_onInsert (callbacks s) then emit (CallOnInsert new) s else s"]
      update_recomputes[of t "if has_onUpdate (callbacks s) then emit (CallOnUpdate old new) s else s"]
    by (cases "classifyMembership (whereClause s) old new") (simp_all add: onUpdate_def callback_keeps)
qed

lemma handle_raw_skipped:
  assumes "strict_eq (ctx_event_of e) (latestTransactionEvent s)" "truthy (latestTransactionEvent s)"
  shows "recomputes (handle_raw e s) = recomputes s
     \<and> latestTransactionEvent (handle_raw e s) = latestTransactionEvent s
     \<and> whereClause (handle_raw e s) = whereClause s"
proof (cases e)
  case (Insert t r)
  with assms show ?thesis
    using update_skipped[of t "if has_onInsert (callbacks s) then emit (CallOnInsert r) s else s"]
    by (simp add: onInsert_def callback_keeps)
next
  case (Delete t r)
  with assms show ?thesis
    using update_skipped[of t "if has_onDelete (callbacks s) then emit (CallOnDelete r) s else s"]
    by (simp add: onDelete_def callback_keeps)
next
  case (Update t old new)
  with assms show ?thesis
    using update_skipped[of t "if has_onDelete (callbacks s) then emit (CallOnDelete old) s else s"]
      update_skipped[of t "if has_onInsert (callbacks s) then emit (CallOnInsert new) s else s"]
      update_skipped[of t "if has_onUpdate (callbacks s) then emit (CallOnUpdate old new) s else s"]
    by (cases "classifyMembership (whereClause s) old new") (simp_all add: onUpdate_def callback_keeps)
qed

lemma same_transaction_skipped:
  "truthy t \<Longrightarrow> latestTransactionEvent s = t \<Longrightarrow> list_all (\<lambda>e. ctx_event_of e = t) evs \<Longrightarrow>
   recomputes (fold handle_raw evs s) = recomputes s
   \<and> latestTransactionEvent (fold handle_raw evs s) = t"
proof (induction evs arbitrary: s)
  case Nil
  then show ?case by simp
next
  case (Cons e evs)
  have "strict_eq (ctx_event_of e) (latestTransactionEvent s)" "truthy (latestTransactionEvent s)"
    using Cons.prems truthy_strict_eq_refl by auto
  from handle_raw_skipped[OF this] Cons.IH[of "handle_raw e s"] Cons.prems
  show ?case by simp
qed

text \<open>
  With one set of row listeners registered, as after one subscribe, the table cache's
  delivery of a row event is one run of the listener.
\<close>

lemma deliver_one_listener:
  "insert_listeners s = [l] \<Longrightarrow> deliver (RowInsert t r) s = handle_raw (Insert t r) s"
  "delete_listeners s = [l] \<Longrightarrow> deliver (RowDelete t r) s = handle_raw (Delete t r) s"
  "update_listeners s = [l] \<Longrightarrow> deliver (RowUpdate t old new) s = handle_raw (Update t old new) s"
  by simp_all

text \<open>
  An event that does not get past the filter at the head of its listener leaves the
  view as it is.
\<close>

lemma not_dispatched_noop: "\<not> dispatched (whereClause s) e \<Longrightarrow> handle_raw e s = s"
proof (cases e)
  case (Update t old new)
  assume "\<not> dispatched (whereClause s) e"
  with Update show ?thesis by (simp add: onUpdate_def)
qed (simp_all add: onInsert_def onDelete_def)

lemma stale_transaction_run:
  assumes "truthy t" "strict_eq t (latestTransactionEvent s)"
    and "list_all (\<lambda>e. ctx_event_of e = t) evs"
  shows "recomputes (fold handle_raw evs s) = recomputes s
     \<and> latestTransactionEvent (fold handle_raw evs s) = latestTransactionEvent s"
  using same_transaction_skipped[OF assms(1) strict_eq_eq[OF assms(2), symmetric] assms(3)]
    strict_eq_eq[OF assms(2)]
  by simp

lemma fresh_transaction_run:
  "truthy t \<Longrightarrow> \<not> strict_eq t (latestTransactionEvent s) \<Longrightarrow>
   list_all (\<lambda>e. ctx_event_of e = t) evs \<Longrightarrow>
   recomputes (fold handle_raw evs s) =
     recomputes s + (if list_ex (dispatched (whereClause s)) evs then 1 else 0)
   \<and> latestTransactionEvent (fold handle_raw evs s) =
     (if list_ex (dispatched (whereClause s)) evs then t else latestTransactionEvent s)"
proof (induction evs)
  case Nil
  show ?case by simp
next
  case (Cons e evs)
  have ctx: "ctx_event_of e = t" and rest: "list_all (\<lambda>e. ctx_event_of e = t) evs"
    using Cons.prems(3) by simp_all
  show ?case
  proof (cases "dispatched (whereClause s) e")
    case True
    have first: "recomputes (handle_raw e s) = recomputes s + 1"
      "latestTransactionEvent (handle_raw e s) = t"
      using handle_raw_recomputes[of s e] True Cons.prems(2) ctx by simp_all
    from same_transaction_skipped[OF Cons.prems(1) first(2) rest] first(1) True
    show ?thesis by simp
  next
    case False
    from Cons.IH[OF Cons.prems(1,2) rest] not_dispatched_noop[OF False] False
    show ?thesis by simp
  qed
qed

text \<open>
  Claim C2, as stated, fails in three ways. Two inserts that both carry \<^verbatim>\<open>null\<close>
  recompute twice, handled by the listener or delivered by the cache. A run whose
  events are all filtered out does not recompute. And a run whose identity is the
  last-seen one already, as the later events of a transaction are, does not recompute.
\<close>

theorem shared_identity_run_counterexample:
  "recomputes (active_users_view Connected) = 0
   \<and> recomputes (fold handle_raw [Insert Null (active_user 1), Insert Null (active_user 2)]
        (active_users_view Connected)) = 2
   \<and> recomputes (run [RowInsert Null (active_user 1), RowInsert Null (active_user 2)]
        (active_users_view Connected)) = 2
   \<and> recomputes (fold handle_raw
        [Insert (Ref 7) (inactive_user 1), Delete (Ref 7) (inactive_user 2)]
        (active_users_view Connected)) = 0
   \<and> recomputes (fold handle_raw [Insert (Ref 7) (active_user 2), Delete (Ref 7) (active_user 3)]
        (handle_raw (Insert (Ref 7) (active_user 1)) (active_users_view Connected)))
     = recomputes (handle_raw (Insert (Ref 7) (active_user 1)) (active_users_view Connected))"
  by code_simp

text \<open>
  Claim C2, amended. Take a run of consecutive raw row events handled by one listener
  set of the view, all carrying one truthy transaction identity. The row set is
  recomputed and republished exactly once over the run when at least one event of the
  run gets past the filter at the head of its listener (an insert or delete whose row
  passes the predicate, an update not classified \<open>StayOut\<close>) and the identity is not
  \<^verbatim>\<open>===\<close> to the last-seen identity when the run starts; otherwise it is not
  recomputed. The identity is the last-seen one after the run when an event got past
  the filter. And any event that gets past the filter with an identity that is not
  \<^verbatim>\<open>===\<close> to the last-seen one triggers a recompute.
\<close>

theorem one_recompute_per_truthy_transaction:
  "(list_all (\<lambda>e. ctx_event_of e = t) evs \<and> truthy t
    \<longrightarrow> recomputes (fold handle_raw evs s) =
          recomputes s +
          (if list_ex (dispatched (whereClause s)) evs \<and> \<not> strict_eq t (latestTransactionEvent s)
           then 1 else 0)
        \<and> latestTransactionEvent (fold handle_raw evs s) =
          (if list_ex (dispatched (whereClause s)) evs then t else latestTransactionEvent s))
   \<and> (dispatched (whereClause s) e \<and> \<not> strict_eq (ctx_event_of e) (latestTransactionEvent s)
    \<longrightarrow> recomputes (handle_raw e s) = recomputes s + 1)"
proof -
  have run: "recomputes (fold handle_raw evs s) =
          recomputes s +
          (if list_ex (dispatched (whereClause s)) evs \<and> \<not> strict_eq t (latestTransactionEvent s)
           then 1 else 0)
        \<and> latestTransactionEvent (fold handle_raw evs s) =
          (if list_ex (dispatched (whereClause s)) evs then t else latestTransactionEvent s)"
    if same: "list_all (\<lambda>e. ctx_event_of e = t) evs" and t: "truthy t"
  proof (cases "strict_eq t (latestTransactionEvent s)")
    case True
    from stale_transaction_run[OF t True same] strict_eq_eq[OF True] True
    show ?thesis by simp
  next
    case False
    from fresh_transaction_run[OF t False same] False show ?thesis by simp
  qed
  have single: "recomputes (handle_raw e s) = recomputes s + 1"
    if "dispatched (whereClause s) e" "\<not> strict_eq (ctx_event_of e) (latestTransactionEvent s)"
    using handle_raw_recomputes[of s e] that by blast
  from run single show ?thesis by blast
qed

theorem one_recompute_per_truthy_transaction_witness:
  "recomputes
     (fold handle_raw
        [Insert (Ref 7) (active_user 1), Insert (Ref 7) (inactive_user 2),
         Update (Ref 7) (active_user 2) (inactive_user 2), Delete (Ref 7) (active_user 3)]
        (active_users_view Connected))
   = recomputes (active_users_view Connected) + 1"
proof -
  let ?evs = "[Insert (Ref 7) (active_user 1), Insert (Ref 7) (inactive_user 2),
         Update (Ref 7) (active_user 2) (inactive_user 2), Delete (Ref 7) (active_user 3)]"
  have same: "list_all (\<lambda>e. ctx_event_of e = Ref 7) ?evs" by simp
  have t: "truthy (Ref 7)" by simp
  have some: "list_ex (dispatched (whereClause (active_users_view Connected))) ?evs"
    by code_simp
  have fresh: "\<not> strict_eq (Ref 7) (latestTransactionEvent (active_users_view Connected))"
    by code_simp
  from same t some fresh
    one_recompute_per_truthy_transaction
      [of "Ref 7" ?evs "active_users_view Connected"]
  show ?thesis by simp
qed

text \<open>
  Claim C10. When the transaction identity of a raw event is falsy, the event, once
  past the filter at the head of its listener, recomputes the snapshot whatever the
  last-seen identity is, the same falsy identity included.
\<close>

theorem falsy_transaction_always_recomputes:
  assumes "\<not> truthy (ctx_event_of e)" and "dispatched (whereClause s) e"
  shows "recomputes (handle_raw e s) = recomputes s + 1"
  using handle_raw_recomputes[of s e]
    falsy_strict_eq[OF assms(1), of "latestTransactionEvent s"] assms(2)
  by blast

theorem falsy_transaction_always_recomputes_witness:
  "recomputes (handle_raw (Insert Undefined (active_user 2))
       (handle_raw (Insert Undefined (active_user 1)) (active_users_view Connected)))
   = recomputes (active_users_view Connected) + 1 + 1"
proof -
  let ?s1 = "handle_raw (Insert Undefined (active_user 1)) (active_users_view Connected)"
  have falsy: "\<not> truthy (ctx_event_of (Insert Undefined (active_user 1)))"
    "\<not> truthy (ctx_event_of (Insert Undefined (active_user 2)))" by simp_all
  have d1: "dispatched (whereClause (active_users_view Connected)) (Insert Undefined (active_user 1))"
    by code_simp
  have d2: "dispatched (whereClause ?s1) (Insert Undefined (active_user 2))"
    by code_simp
  from falsy_transaction_always_recomputes[OF falsy(1) d1]
    falsy_transaction_always_recomputes[OF falsy(2) d2]
  show ?thesis by simp
qed

subsection \<open>Subscribing\<close>

lemma setupTableListeners_keeps:
  "subscribes (setupTableListeners s) = subscribes s"
  "isActive (setupTableListeners s) = isActive s"
  "unsubscribeStatus (setupTableListeners s) = unsubscribeStatus s"
  "status_listening (setupTableListeners s) = status_listening s"
  "status_value (setupTableListeners s) = status_value s"
  by (simp_all add: setupTableListeners_def Let_def emit_def subscribes_def)

lemma setupSubscription_subscribes:
  "subscribes (setupSubscription s) = subscribes s + (if isActive s then 1 else 0)"
  by (simp add: setupSubscription_def Let_def setupTableListeners_keeps)
     (simp add: emit_def subscribes_def)

lemma setupSubscription_keeps:
  "isActive (setupSubscription s) = isActive s"
  "unsubscribeStatus (setupSubscription s) = unsubscribeStatus s"
  "status_listening (setupSubscription s) = status_listening s"
  "status_value (setupSubscription s) = status_value s"
  by (simp_all add: setupSubscription_def Let_def setupTableListeners_keeps)
     (simp_all add: emit_def)

lemma handleStatusChange_not_connected: "st \<noteq> Connected \<Longrightarrow> handleStatusChange st s = s"
  by (simp add: handleStatusChange_def)

lemma handleStatusChange_before_assignment:
  "\<not> unsubscribeStatus s \<Longrightarrow> handleStatusChange Connected s = setupSubscription s"
  by (simp add: handleStatusChange_def Let_def setupSubscription_keeps)

lemma handleStatusChange_after_assignment:
  assumes "unsubscribeStatus s"
  shows "subscribes (handleStatusChange Connected s) = subscribes s + (if isActive s then 1 else 0)"
    and "\<not> status_listening (handleStatusChange Connected s)"
    and "unsubscribeStatus (handleStatusChange Connected s)"
    and "isActive (handleStatusChange Connected s) = isActive s"
    and "status_value (handleStatusChange Connected s) = status_value s"
  using assms
  by (simp_all add: handleStatusChange_def Let_def setupSubscription_keeps call_unsubscribeStatus_def
      emit_def subscribes_def setupSubscription_subscribes[unfolded subscribes_def])

lemma new_TableQuery_connected:
  "subscribes (new_TableQuery ns name wh cbs active cache upd Connected) = (if active then 1 else 0)"
  "status_listening (new_TableQuery ns name wh cbs active cache upd Connected)"
  "unsubscribeStatus (new_TableQuery ns name wh cbs active cache upd Connected)"
  "isActive (new_TableQuery ns name wh cbs active cache upd Connected) = active"
  "status_value (new_TableQuery ns name wh cbs active cache upd Connected) = Connected"
  unfolding new_TableQuery_def Let_def
  by (simp_all add: handleStatusChange_before_assignment emit_def setupSubscription_keeps
      subscribes_def setupSubscription_subscribes[unfolded subscribes_def])


lemma deliver_status_not_connected:
  "st \<noteq> Connected \<Longrightarrow> st \<noteq> status_value s \<Longrightarrow> deliver (StatusSet st) s = s\<lparr>status_value := st\<rparr>"
  by (simp add: handleStatusChange_not_connected)

text \<open>
  Claim C4 does not hold of a view built while the status is already \<open>Connected\<close>.
  The store runs the handler inside \<^verbatim>\<open>subscribe\<close>, before \<^verbatim>\<open>unsubscribeStatus\<close> is
  assigned: the handler subscribes and cannot deregister itself. It stays registered,
  and the next transition to \<open>Connected\<close> subscribes a second time.
\<close>

theorem built_connected_subscribes_again:
  "subscribes (new_TableQuery ns name wh cbs True cache upd Connected) = 1
   \<and> subscribes (run [StatusSet Disconnected, StatusSet Connected]
        (new_TableQuery ns name wh cbs True cache upd Connected)) = 2"
proof -
  let ?s0 = "new_TableQuery ns name wh cbs True cache upd Connected"
  let ?s1 = "?s0\<lparr>status_value := Disconnected\<rparr>"
  let ?s2 = "?s1\<lparr>status_value := Connected\<rparr>"
  have s0: "subscribes ?s0 = 1" "status_listening ?s0" "unsubscribeStatus ?s0" "isActive ?s0"
    "status_value ?s0 = Connected"
    using new_TableQuery_connected[of ns name wh cbs True cache upd] by simp_all
  have d1: "deliver (StatusSet Disconnected) ?s0 = ?s1"
    using deliver_status_not_connected[of Disconnected ?s0] s0(5) by simp
  have d2: "deliver (StatusSet Connected) ?s1 = handleStatusChange Connected ?s2"
    using s0(2) by simp
  have s2: "unsubscribeStatus ?s2" "isActive ?s2" "subscribes ?s2 = 1"
    using s0 by (simp_all add: subscribes_def)
  have "subscribes (handleStatusChange Connected ?s2) = 2"
    using handleStatusChange_after_assignment(1)[OF s2(1)] s2(2,3) by simp
  then have "subscribes (run [StatusSet Disconnected, StatusSet Connected] ?s0) = 2"
    unfolding run_def by (simp only: fold_simps d1 d2 o_apply id_apply)
  with s0(1) show ?thesis by simp
qed

theorem built_connected_subscribes_again_witness:
  "filter is_Subscribe (trace (run [StatusSet Disconnected, StatusSet Connected]
        (active_users_view Connected)))
   = [Subscribe 0 (''SELECT * FROM User WHERE isActive = TRUE''),
      Subscribe 2 (''SELECT * FROM User WHERE isActive = TRUE'')]
   \<and> subscribes (run [StatusSet Disconnected, StatusSet Connected] (active_users_view Connected)) = 2"
proof -
  have tr: "filter is_Subscribe (trace (run [StatusSet Disconnected, StatusSet Connected]
        (active_users_view Connected)))
   = [Subscribe 0 (''SELECT * FROM User WHERE isActive = TRUE''),
      Subscribe 2 (''SELECT * FROM User WHERE isActive = TRUE'')]"
    by code_simp
  from tr built_connected_subscribes_again
      [of "\<lambda>q. []" "''User''" "Some (where_expr (eq ''isActive'' (VBool True)))" all_callbacks "[]" True]
  show ?thesis unfolding active_users_view_def by simp
qed

subsection \<open>Disposal\<close>

lemma run_unsubscriber_keeps:
  "unsubscribe (run_unsubscriber u s) = unsubscribe s"
  "tableUnSubscribers (run_unsubscriber u s) = tableUnSubscribers s"
  by (cases u; simp add: call_unsubscribeStatus_def emit_def)+

lemma fold_run_unsubscriber_keeps:
  "unsubscribe (fold run_unsubscriber us s) = unsubscribe s"
  by (induction us arbitrary: s) (simp_all add: run_unsubscriber_keeps)

lemma destroy_fields:
  "unsubscribe (destroy s) = unsubscribe s"
  "tableUnSubscribers (destroy s) = []"
  by (cases "unsubscribe s"; simp add: destroy_def Let_def fold_run_unsubscriber_keeps emit_def)+

text \<open>
  Claim C6 does not hold of a view that has subscribed. \<^verbatim>\<open>destroy\<close> empties
  \<^verbatim>\<open>#tableUnSubscribers\<close> but leaves \<^verbatim>\<open>#unsubscribe\<close> set, so a second call
  repeats no listener deregistration, and calls the subscription's
  \<^verbatim>\<open>unsubscribe\<close> once more. Only a view that never subscribed is left alone by the
  second call.
\<close>

theorem second_destroy_cancels_again:
  "trace (destroy (destroy s)) =
     trace (destroy s) @ (case unsubscribe s of None \<Rightarrow> [] | Some h \<Rightarrow> [CancelUnsubscribe h])"
proof -
  let ?d = "destroy s"
  have "trace (destroy ?d) =
     trace ?d @ (case unsubscribe ?d of None \<Rightarrow> [] | Some h \<Rightarrow> [CancelUnsubscribe h])"
    by (cases "unsubscribe ?d"; simp add: destroy_def[of ?d] destroy_fields Let_def emit_def)
  then show ?thesis by (simp only: destroy_fields)
qed

theorem second_destroy_cancels_again_witness:
  "trace (destroy (destroy (active_users_view Connected))) =
     trace (destroy (active_users_view Connected)) @ [CancelUnsubscribe 0]"
proof -
  have "unsubscribe (active_users_view Connected) = Some 0"
    by code_simp
  with second_destroy_cancels_again[of "active_users_view Connected"] show ?thesis by simp
qed

subsection \<open>The initial snapshot\<close>

lemma computeSnapshot_keeps:
  "computeSnapshot (s\<lparr>latestTransactionEvent := t\<rparr>) = computeSnapshot s"
  "computeSnapshot (emit c s) = computeSnapshot s"
  by (cases "whereClause s"; simp add: computeSnapshot_def emit_def)+

lemma updateSnapshot_first_call:
  assumes "has_onInitialSnapshot (callbacks s)" "\<not> initialSnapshotCalled s"
  shows "initial_snapshots (updateSnapshot s) =
           initial_snapshots s @ [CallOnInitialSnapshot (computeSnapshot s)]
         \<and> initialSnapshotCalled (updateSnapshot s)
         \<and> subscribeApplied (updateSnapshot s) = subscribeApplied s"
  using assms
  by (simp add: updateSnapshot_def Let_def initialSnapshotHandler_def emit_def
      initial_snapshots_def)

lemma update_first_call:
  assumes "has_onInitialSnapshot (callbacks s)" "\<not> initialSnapshotCalled s"
    and "\<not> truthy (latestTransactionEvent s)"
  shows "initial_snapshots (update_once_per_transaction t s) =
           initial_snapshots s @ [CallOnInitialSnapshot (computeSnapshot s)]
         \<and> initialSnapshotCalled (update_once_per_transaction t s)
         \<and> subscribeApplied (update_once_per_transaction t s) = subscribeApplied s"
  using assms updateSnapshot_first_call[of "s\<lparr>latestTransactionEvent := t\<rparr>"]
  by (simp add: update_once_per_transaction_def initial_snapshots_def computeSnapshot_keeps)

lemma dispatch_first_call:
  assumes "has_onInitialSnapshot (callbacks s)" "\<not> initialSnapshotCalled s"
    and "\<not> truthy (latestTransactionEvent s)" "\<not> is_CallOnInitialSnapshot c"
  shows "initial_snapshots (update_once_per_transaction t (if b then emit c s else s)) =
           initial_snapshots s @ [CallOnInitialSnapshot (computeSnapshot s)]
         \<and> initialSnapshotCalled (update_once_per_transaction t (if b then emit c s else s))
         \<and> subscribeApplied (update_once_per_transaction t (if b then emit c s else s))
             = subscribeApplied s"
proof (cases b)
  case True
  with assms update_first_call[of "emit c s" t] show ?thesis
    by (simp add: computeSnapshot_keeps) (simp add: emit_def initial_snapshots_def)
next
  case False
  with assms update_first_call[of s t] show ?thesis by simp
qed

text \<open>
  The first recompute of a view calls the initial-snapshot callback, whatever causes
  it: a raw row event that gets past the filter does, also before the subscription is
  applied, and leaves \<^verbatim>\<open>#subscribeApplied\<close> as it is.
\<close>

lemma first_recompute_calls_initial_snapshot:
  assumes "has_onInitialSnapshot (callbacks s)" "\<not> initialSnapshotCalled s"
    and "\<not> truthy (latestTransactionEvent s)" "dispatched (whereClause s) e"
  shows "initial_snapshots (handle_raw e s) =
           initial_snapshots s @ [CallOnInitialSnapshot (computeSnapshot s)]
         \<and> initialSnapshotCalled (handle_raw e s)
         \<and> subscribeApplied (handle_raw e s) = subscribeApplied s"
proof (cases e)
  case (Insert t r)
  with assms show ?thesis
    using dispatch_first_call[OF assms(1-3), of "CallOnInsert r" t "has_onInsert (callbacks s)"]
    by (simp add: onInsert_def split del: if_split)
next
  case (Delete t r)
  with assms show ?thesis
    using dispatch_first_call[OF assms(1-3), of "CallOnDelete r" t "has_onDelete (callbacks s)"]
    by (simp add: onDelete_def split del: if_split)
next
  case (Update t old new)
  with assms show ?thesis
    using dispatch_first_call[OF assms(1-3), of "CallOnDelete old" t "has_onDelete (callbacks s)"]
      dispatch_first_call[OF assms(1-3), of "CallOnInsert new" t "has_onInsert (callbacks s)"]
      dispatch_first_call[OF assms(1-3), of "CallOnUpdate old new" t "has_onUpdate (callbacks s)"]
    by (cases "classifyMembership (whereClause s) old new")
       (simp_all add: onUpdate_def split del: if_split)
qed

text \<open>Once the callback has been called, the applied-callback does not call it.\<close>

lemma applied_after_call_is_silent:
  "initialSnapshotCalled s \<Longrightarrow> initial_snapshots (onApplied s) = initial_snapshots s"
  by (simp add: onApplied_def updateSnapshot_def initialSnapshotHandler_def emit_def Let_def
      initial_snapshots_def)

text \<open>
  Claim C5 does not hold when a raw row event reaches the view between subscribe and
  subscribe-applied (the row listeners are registered at subscribe, on a cache other
  views share). The callback fires at that event, while the view is still loading,
  with the rows of that recompute; at subscribe-applied, with other rows in the
  snapshot, it does not fire.
\<close>

theorem initial_snapshot_before_applied:
  "state (run [CacheRows [active_user 1], RowInsert (Ref 7) (active_user 1)]
            (active_users_view Connected)) = Loading
   \<and> initial_snapshots (run [CacheRows [active_user 1], RowInsert (Ref 7) (active_user 1)]
            (active_users_view Connected)) = [CallOnInitialSnapshot [active_user 1]]
   \<and> state (run [CacheRows [active_user 1], RowInsert (Ref 7) (active_user 1),
                 CacheRows [active_user 1, inactive_user 2, active_user 3], SubscriptionApplied 0]
            (active_users_view Connected)) = Ready
   \<and> rows (run [CacheRows [active_user 1], RowInsert (Ref 7) (active_user 1),
                 CacheRows [active_user 1, inactive_user 2, active_user 3], SubscriptionApplied 0]
            (active_users_view Connected)) = [active_user 1, active_user 3]
   \<and> initial_snapshots (run [CacheRows [active_user 1], RowInsert (Ref 7) (active_user 1),
                 CacheRows [active_user 1, inactive_user 2, active_user 3], SubscriptionApplied 0]
            (active_users_view Connected)) = [CallOnInitialSnapshot [active_user 1]]"
  by code_simp

subsection \<open>At most one subscribe call for a view built before the connection\<close>

lemma nns_refl: "no_new_subscription s s"
  by (simp add: no_new_subscription_def)

lemma nns_trans: "no_new_subscription s s' \<Longrightarrow> no_new_subscription s' s'' \<Longrightarrow> no_new_subscription s s''"
  by (auto simp: no_new_subscription_def)

lemma nns_updateSnapshot: "no_new_subscription s (updateSnapshot s)"
  by (simp add: no_new_subscription_def updateSnapshot_def Let_def initialSnapshotHandler_def
      emit_def subscribes_def)

lemma nns_update_once: "no_new_subscription s (update_once_per_transaction t s)"
  using nns_updateSnapshot[of "s\<lparr>latestTransactionEvent := t\<rparr>"]
  by (simp add: update_once_per_transaction_def no_new_subscription_def subscribes_def)

lemma nns_callback: "\<not> is_Subscribe e \<Longrightarrow> no_new_subscription s (if b then emit e s else s)"
  by (simp add: no_new_subscription_def emit_def subscribes_def)

lemma nns_dispatch:
  "\<not> is_Subscribe e \<Longrightarrow>
   no_new_subscription s (update_once_per_transaction t (if b then emit e s else s))"
  by (rule nns_trans[OF nns_callback nns_update_once])

lemma nns_onInsert: "no_new_subscription s (onInsert t r s)"
  unfolding onInsert_def
  by (cases "filtered_out (whereClause s) r")
     (simp_all add: nns_refl nns_dispatch split del: if_split)

lemma nns_onDelete: "no_new_subscription s (onDelete t r s)"
  unfolding onDelete_def
  by (cases "filtered_out (whereClause s) r")
     (simp_all add: nns_refl nns_dispatch split del: if_split)

lemma nns_onUpdate: "no_new_subscription s (onUpdate t old new s)"
  unfolding onUpdate_def
  by (cases "classifyMembership (whereClause s) old new")
     (simp_all add: nns_refl nns_dispatch split del: if_split)

lemma nns_onApplied: "no_new_subscription s (onApplied s)"
  using nns_updateSnapshot[of "s\<lparr>subscribeApplied := True\<rparr>"]
  by (simp add: onApplied_def no_new_subscription_def subscribes_def)

lemma nns_run_unsubscriber: "no_new_subscription s (run_unsubscriber u s)"
  by (cases u) (simp_all add: no_new_subscription_def call_unsubscribeStatus_def emit_def subscribes_def)

lemma nns_fold: "(\<And>x s. no_new_subscription s (f x s)) \<Longrightarrow> no_new_subscription s (fold f xs s)"
proof (induction xs arbitrary: s)
  case Nil
  show ?case by (simp add: nns_refl)
next
  case (Cons x xs)
  from nns_trans[OF Cons.prems[of s x] Cons.IH[OF Cons.prems, of "f x s"]]
  show ?case by simp
qed

lemma nns_destroy: "no_new_subscription s (destroy s)"
proof -
  let ?s1 = "case unsubscribe s of None \<Rightarrow> s
     | Some h \<Rightarrow> emit (CancelUnsubscribe h) (s\<lparr>applied_callbacks := removeAll h (applied_callbacks s)\<rparr>)"
  have a: "no_new_subscription s ?s1"
    by (cases "unsubscribe s") (simp_all add: no_new_subscription_def emit_def subscribes_def)
  have b: "no_new_subscription ?s1 (fold run_unsubscriber (tableUnSubscribers ?s1) ?s1)"
    by (rule nns_fold) (rule nns_run_unsubscriber)
  have c: "no_new_subscription s' (s'\<lparr>tableUnSubscribers := []\<rparr>)" for s'
    by (simp add: no_new_subscription_def subscribes_def)
  from nns_trans[OF nns_trans[OF a b] c] show ?thesis
    by (simp add: destroy_def Let_def)
qed

lemma once_kept: "no_new_subscription s s' \<Longrightarrow> subscribed_at_most_once s \<Longrightarrow> subscribed_at_most_once s'"
  by (auto simp: no_new_subscription_def subscribed_at_most_once_def split: if_splits)

lemma once_handleStatusChange:
  assumes "subscribed_at_most_once s" "status_listening s"
  shows "subscribed_at_most_once (handleStatusChange st s)"
proof (cases "st = Connected")
  case True
  have u: "unsubscribeStatus s" and z: "subscribes s = 0"
    using assms by (simp_all add: subscribed_at_most_once_def)
  from handleStatusChange_after_assignment[OF u] z True
  show ?thesis by (simp add: subscribed_at_most_once_def)
next
  case False
  then show ?thesis using assms by (simp add: handleStatusChange_not_connected)
qed

lemma once_field:
  "subscribed_at_most_once (s\<lparr>status_value := v\<rparr>) = subscribed_at_most_once s"
  "subscribed_at_most_once (s\<lparr>isActive := b\<rparr>) = subscribed_at_most_once s"
  "subscribed_at_most_once (s\<lparr>cache_rows := rs\<rparr>) = subscribed_at_most_once s"
  by (simp_all add: subscribed_at_most_once_def subscribes_def)

lemma once_deliver: "subscribed_at_most_once s \<Longrightarrow> subscribed_at_most_once (deliver e s)"
proof (cases e)
  case (StatusSet v)
  assume inv: "subscribed_at_most_once s"
  show ?thesis
    using once_handleStatusChange[of "s\<lparr>status_value := v\<rparr>" v] inv
    by (simp add: StatusSet once_field)
next
  case (SubscriptionApplied h)
  assume "subscribed_at_most_once s"
  then show ?thesis using once_kept[OF nns_onApplied] by (simp add: SubscriptionApplied)
next
  case (RowInsert t r)
  assume "subscribed_at_most_once s"
  then show ?thesis
    using once_kept[OF nns_fold[of "\<lambda>l. onInsert t r" s "insert_listeners s"]] nns_onInsert
    by (simp add: RowInsert)
next
  case (RowDelete t r)
  assume "subscribed_at_most_once s"
  then show ?thesis
    using once_kept[OF nns_fold[of "\<lambda>l. onDelete t r" s "delete_listeners s"]] nns_onDelete
    by (simp add: RowDelete)
next
  case (RowUpdate t old new)
  assume "subscribed_at_most_once s"
  then show ?thesis
    using once_kept[OF nns_fold[of "\<lambda>l. onUpdate t old new" s "update_listeners s"]] nns_onUpdate
    by (simp add: RowUpdate)
next
  case Destroy
  assume "subscribed_at_most_once s"
  then show ?thesis using once_kept[OF nns_destroy] by (simp add: Destroy)
qed (simp_all add: once_field)

lemma once_run: "subscribed_at_most_once s \<Longrightarrow> subscribed_at_most_once (run evs s)"
  unfolding run_def by (induction evs arbitrary: s) (simp_all add: once_deliver)

lemma once_new:
  "st \<noteq> Connected \<Longrightarrow> subscribed_at_most_once (new_TableQuery ns name wh cbs active cache upd st)"
  unfolding new_TableQuery_def Let_def
  by (simp add: handleStatusChange_not_connected subscribed_at_most_once_def emit_def subscribes_def)

text \<open>
  A view built while the status is not \<open>Connected\<close> issues at most one subscribe call,
  whatever the collaborators and the consumer do afterwards.
\<close>

theorem subscribes_at_most_once_when_built_unconnected:
  "st \<noteq> Connected \<Longrightarrow> subscribes (run evs (new_TableQuery ns name wh cbs active cache upd st)) \<le> 1"
  using once_run[OF once_new, of st evs ns name wh cbs active cache upd]
  by (simp add: subscribed_at_most_once_def split: if_splits)


theorem subscribes_at_most_once_when_built_unconnected_witness:
  "subscribes
     (run [StatusSet Connecting, StatusSet Connected, StatusSet Disconnected, StatusSet Connected]
        (active_users_view Disconnected)) \<le> 1"
proof -
  have "Disconnected \<noteq> Connected" by simp
  from subscribes_at_most_once_when_built_unconnected
    [OF this, of "[StatusSet Connecting, StatusSet Connected, StatusSet Disconnected,
                   StatusSet Connected]"
        "\<lambda>q. []" "''User''" "Some (where_expr (eq ''isActive'' (VBool True)))" all_callbacks
        True "[]" True]
  show ?thesis unfolding active_users_view_def by simp
qed

subsection \<open>The initial snapshot fires at most once\<close>

lemma called_once_field:
  "snapshot_called_once (s\<lparr>status_value := v\<rparr>) = snapshot_called_once s"
  "snapshot_called_once (s\<lparr>isActive := b\<rparr>) = snapshot_called_once s"
  "snapshot_called_once (s\<lparr>cache_rows := rs\<rparr>) = snapshot_called_once s"
  "snapshot_called_once (s\<lparr>latestTransactionEvent := t\<rparr>) = snapshot_called_once s"
  "snapshot_called_once (s\<lparr>subscribeApplied := b\<rparr>) = snapshot_called_once s"
  "snapshot_called_once (s\<lparr>tableUnSubscribers := us\<rparr>) = snapshot_called_once s"
  "snapshot_called_once (s\<lparr>unsubscribeStatus := b\<rparr>) = snapshot_called_once s"
  by (simp_all add: snapshot_called_once_def initial_snapshots_def)

lemma called_once_callback:
  "\<not> is_CallOnInitialSnapshot e \<Longrightarrow>
   snapshot_called_once (if b then emit e s else s) = snapshot_called_once s"
  by (simp add: snapshot_called_once_def initial_snapshots_def emit_def)

lemma called_once_updateSnapshot:
  "snapshot_called_once s \<Longrightarrow> snapshot_called_once (updateSnapshot s)"
  by (auto simp: snapshot_called_once_def initial_snapshots_def updateSnapshot_def Let_def
      initialSnapshotHandler_def emit_def split: if_splits)

lemma called_once_update_once:
  "snapshot_called_once s \<Longrightarrow> snapshot_called_once (update_once_per_transaction t s)"
  using called_once_updateSnapshot[of "s\<lparr>latestTransactionEvent := t\<rparr>"]
  by (simp add: update_once_per_transaction_def called_once_field)

lemma called_once_dispatch:
  "\<not> is_CallOnInitialSnapshot e \<Longrightarrow> snapshot_called_once s \<Longrightarrow>
   snapshot_called_once (update_once_per_transaction t (if b then emit e s else s))"
  by (rule called_once_update_once) (simp add: called_once_callback split del: if_split)

lemma called_once_onInsert: "snapshot_called_once s \<Longrightarrow> snapshot_called_once (onInsert t r s)"
  unfolding onInsert_def
  by (cases "filtered_out (whereClause s) r")
     (simp_all add: called_once_dispatch split del: if_split)

lemma called_once_onDelete: "snapshot_called_once s \<Longrightarrow> snapshot_called_once (onDelete t r s)"
  unfolding onDelete_def
  by (cases "filtered_out (whereClause s) r")
     (simp_all add: called_once_dispatch split del: if_split)

lemma called_once_onUpdate:
  "snapshot_called_once s \<Longrightarrow> snapshot_called_once (onUpdate t old new s)"
  unfolding onUpdate_def
  by (cases "classifyMembership (whereClause s) old new")
     (simp_all add: called_once_dispatch split del: if_split)

lemma called_once_onApplied: "snapshot_called_once s \<Longrightarrow> snapshot_called_once (onApplied s)"
  using called_once_updateSnapshot[of "s\<lparr>subscribeApplied := True\<rparr>"]
  by (simp add: onApplied_def called_once_field)

lemma called_once_setupSubscription:
  "snapshot_called_once (setupSubscription s) = snapshot_called_once s"
  by (simp add: setupSubscription_def setupTableListeners_def Let_def emit_def
      snapshot_called_once_def initial_snapshots_def)

lemma called_once_call_unsubscribeStatus:
  "snapshot_called_once (call_unsubscribeStatus s) = snapshot_called_once s"
  by (simp add: call_unsubscribeStatus_def emit_def snapshot_called_once_def initial_snapshots_def)

lemma called_once_handleStatusChange:
  "snapshot_called_once (handleStatusChange st s) = snapshot_called_once s"
  by (simp add: handleStatusChange_def Let_def called_once_field called_once_setupSubscription
      called_once_call_unsubscribeStatus)

lemma called_once_run_unsubscriber:
  "snapshot_called_once (run_unsubscriber u s) = snapshot_called_once s"
  by (cases u)
     (simp_all add: call_unsubscribeStatus_def emit_def snapshot_called_once_def initial_snapshots_def)

lemma fold_keeps:
  "(\<And>x s. P s \<Longrightarrow> P (f x s)) \<Longrightarrow> P s \<Longrightarrow> P (fold f xs s)"
  by (induction xs arbitrary: s) simp_all

lemma called_once_destroy: "snapshot_called_once s \<Longrightarrow> snapshot_called_once (destroy s)"
proof -
  assume inv: "snapshot_called_once s"
  let ?s1 = "case unsubscribe s of None \<Rightarrow> s
     | Some h \<Rightarrow> emit (CancelUnsubscribe h) (s\<lparr>applied_callbacks := removeAll h (applied_callbacks s)\<rparr>)"
  have a: "snapshot_called_once ?s1"
    using inv
    by (cases "unsubscribe s") (simp_all add: snapshot_called_once_def initial_snapshots_def emit_def)
  have "snapshot_called_once (fold run_unsubscriber (tableUnSubscribers ?s1) ?s1)"
    by (rule fold_keeps[of snapshot_called_once, OF _ a]) (simp only: called_once_run_unsubscriber)
  then show ?thesis
    by (simp add: destroy_def Let_def called_once_field)
qed

lemma called_once_deliver: "snapshot_called_once s \<Longrightarrow> snapshot_called_once (deliver e s)"
proof (cases e)
  case (RowInsert t r)
  assume "snapshot_called_once s"
  then show ?thesis
    unfolding RowInsert deliver.simps
    by (rule fold_keeps[of snapshot_called_once, rotated]) (rule called_once_onInsert)
next
  case (RowDelete t r)
  assume "snapshot_called_once s"
  then show ?thesis
    unfolding RowDelete deliver.simps
    by (rule fold_keeps[of snapshot_called_once, rotated]) (rule called_once_onDelete)
next
  case (RowUpdate t old new)
  assume "snapshot_called_once s"
  then show ?thesis
    unfolding RowUpdate deliver.simps
    by (rule fold_keeps[of snapshot_called_once, rotated]) (rule called_once_onUpdate)
qed (simp_all add: called_once_field called_once_handleStatusChange called_once_onApplied
       called_once_destroy)

lemma called_once_new:
  "snapshot_called_once (new_TableQuery ns name wh cbs active cache upd st)"
  unfolding new_TableQuery_def Let_def
  by (simp add: called_once_field called_once_handleStatusChange)
     (simp add: snapshot_called_once_def initial_snapshots_def emit_def)

text \<open>
  The initial-snapshot callback is called at most once over the life of a view,
  whatever the collaborators and the consumer do.
\<close>

theorem initial_snapshot_at_most_once:
  "length (initial_snapshots (run evs (new_TableQuery ns name wh cbs active cache upd st))) \<le> 1"
proof -
  have "snapshot_called_once (run evs (new_TableQuery ns name wh cbs active cache upd st))"
    unfolding run_def
    by (rule fold_keeps[of snapshot_called_once, OF _ called_once_new]) (rule called_once_deliver)
  then show ?thesis by (simp add: snapshot_called_once_def)
qed

theorem initial_snapshot_at_most_once_witness:
  "length (initial_snapshots
     (run [CacheRows [active_user 1], RowInsert (Ref 7) (active_user 1), SubscriptionApplied 0,
           SubscriptionApplied 0, RowDelete (Ref 8) (active_user 1)]
        (active_users_view Connected))) \<le> 1"
  using initial_snapshot_at_most_once
    [of "[CacheRows [active_user 1], RowInsert (Ref 7) (active_user 1), SubscriptionApplied 0,
          SubscriptionApplied 0, RowDelete (Ref 8) (active_user 1)]"
        "\<lambda>q. []" "''User''" "Some (where_expr (eq ''isActive'' (VBool True)))" all_callbacks
        True "[]" True Connected]
  unfolding active_users_view_def by simp

end
